theory Spec2Isabelle
  imports Main "HOL-Library.Sublist"
begin

section \<open>C strings and the libc functions the crawler calls\<close>

text \<open>
  A C string is modelled as a \<open>string\<close>: the characters before the terminating NUL, so
  \<open>strlen\<close> is \<open>length\<close>. \<open>strncmp s1 s2 n\<close> compares at most \<open>n\<close> characters and
  stops at the end of either string; only the sign of its result is specified by C, and the
  crawler only tests it against zero.
\<close>

fun strncmp :: "string \<Rightarrow> string \<Rightarrow> nat \<Rightarrow> int" where
  "strncmp s1 s2 0 = 0"
| "strncmp [] [] (Suc n) = 0"
| "strncmp [] (c2 # s2) (Suc n) = - 1"
| "strncmp (c1 # s1) [] (Suc n) = 1"
| "strncmp (c1 # s1) (c2 # s2) (Suc n) =
     (if c1 = c2 then strncmp s1 s2 n
      else if (of_char c1 :: nat) < of_char c2 then - 1 else 1)"

text \<open>
  \<open>strstr haystack needle\<close> returns the part of \<open>haystack\<close> that starts at the first
  occurrence of \<open>needle\<close>, or \<open>None\<close> for the null pointer.
\<close>

fun strstr :: "string \<Rightarrow> string \<Rightarrow> string option" where
  "strstr [] needle = (if needle = [] then Some [] else None)"
| "strstr (c # cs) needle =
     (if prefix needle (c # cs) then Some (c # cs) else strstr cs needle)"

text \<open>
  \<open>is_html\<close> (crawl.cpp, line 175): the content type is a nullable C string. The source
  returns an \<open>int\<close> that is only used as a truth value.
\<close>

definition is_html :: "string option \<Rightarrow> bool" where
  "is_html ctype =
     (case ctype of
        None \<Rightarrow> False
      | Some c \<Rightarrow> 10 < length c \<and> strstr c ''text/html'' \<noteq> None)"

section \<open>The network graph\<close>

text \<open>
  The header \<open>ngraph.hpp\<close>, which declares \<open>NGraph::tGraph\<close>, is not among the sources.
  crawl.cpp uses three of its operations on the global \<open>network\<close>: \<open>find\<close> (compared with
  \<open>end()\<close>), \<open>insert_edge\<close> and, for the summary, \<open>num_nodes\<close>.
\<close>

text \<open>
  Modelled from the spec: the type of \<open>network\<close>, declared in \<open>ngraph.hpp\<close>, is missing.
  The spec's data model has the graph as a mapping from a URL to the set of its outbound
  URLs.
\<close>

type_synonym graph = "string \<rightharpoonup> string set"

text \<open>
  Modelled from the spec: \<open>network.find(u) != network.end()\<close> is missing; the spec gives the
  membership test \<open>has(url)\<close>, true of the URLs that are nodes.
\<close>

definition graph_has :: "graph \<Rightarrow> string \<Rightarrow> bool" where
  "graph_has g u = (g u \<noteq> None)"

text \<open>
  Modelled from the spec: the insertion of a node is missing; according to the spec a node
  is inserted if absent, and nothing is ever removed.
\<close>

definition insert_vertex :: "graph \<Rightarrow> string \<Rightarrow> graph" where
  "insert_vertex g u = (if graph_has g u then g else g(u \<mapsto> {}))"

text \<open>
  Modelled from the spec: the outbound URLs of a node, the values of the spec's mapping;
  a URL that is not a node has none.
\<close>

definition out_links :: "graph \<Rightarrow> string \<Rightarrow> string set" where
  "out_links g u = (case g u of None \<Rightarrow> {} | Some outs \<Rightarrow> outs)"

text \<open>
  Modelled from the spec: \<open>network.insert_edge(a, b)\<close> is missing; the spec's
  \<open>addEdge(from, to)\<close> inserts both endpoints as nodes if absent and adds the edge.
\<close>

definition insert_edge :: "graph \<Rightarrow> string \<Rightarrow> string \<Rightarrow> graph" where
  "insert_edge g a b =
     (let g' = insert_vertex (insert_vertex g a) b
      in g'(a \<mapsto> insert b (out_links g' a)))"

text \<open>
  Modelled from the spec: whether the graph has the edge from \<open>a\<close> to \<open>b\<close>, that is,
  whether \<open>b\<close> is among the outbound URLs of \<open>a\<close>.
\<close>

definition has_edge :: "graph \<Rightarrow> string \<Rightarrow> string \<Rightarrow> bool" where
  "has_edge g a b = (b \<in> out_links g a)"

section \<open>The libxml2 collaborator\<close>

text \<open>
  libxml2 is an external library. Its \<open>xmlURI\<close> structure is reduced to the components of
  a URI reference; the crawler reads none of them and writes only \<open>fragment\<close>.
\<close>

record xmlURI =
  scheme :: "string option"
  authority :: "string option"
  path :: "string option"
  query :: "string option"
  fragment :: "string option"

definition xmlCreateURI :: xmlURI where
  "xmlCreateURI =
     \<lparr>scheme = None, authority = None, path = None, query = None, fragment = None\<rparr>"

text \<open>
  The library functions that \<open>follow_links\<close> calls are parameters of the model, so every
  theorem below holds for any behaviour of the library.
  \<^item> \<open>anchor_hrefs mem url\<close> stands for \<open>htmlReadMemory\<close>, the XPath query \<open>//a/@href\<close>
    and \<open>xmlNodeListGetString\<close> on each node of the result: \<open>None\<close> when the document
    cannot be read, the query fails or the node set is empty (the three early returns of
    the source), otherwise the attribute values in document order, each a nullable string.
  \<^item> \<open>xmlBuildURI href base\<close> resolves a reference against a base; it may return null.
  \<^item> \<open>xmlParseURIReference uri str\<close> is the content of the \<open>uri\<close> object after the call;
    the source ignores the return code, and the object is reused by every iteration.
  \<^item> \<open>xmlSaveUri uri\<close> is the saved string, or null.
\<close>

record libxml =
  anchor_hrefs :: "string \<Rightarrow> string \<Rightarrow> string option list option"
  xmlBuildURI :: "string option \<Rightarrow> string \<Rightarrow> string option"
  xmlParseURIReference :: "xmlURI \<Rightarrow> string option \<Rightarrow> xmlURI"
  xmlSaveUri :: "xmlURI \<Rightarrow> string option"

section \<open>Parameters and state of the crawler\<close>

text \<open>
  The global parameters of crawl.cpp (lines 47 to 57). The \<open>int\<close> parameters and counters
  are unbounded integers and \<open>size_t\<close> values are naturals: no counter of the crawler comes
  near the limits of its type within a run, and no claim depends on wrap-around.
\<close>

record config =
  max_con :: int
  max_total :: int
  max_requests :: int
  max_link_per_page :: nat
  follow_relative_links :: int
  start_url :: string

text \<open>
  The state that the run loop and \<open>follow_links\<close> share: the global \<open>network\<close>, the curl
  multi handle (the easy handles added and not yet removed, each identified by the URL it
  was made for, in the order of \<open>curl_multi_add_handle\<close>), and the locals of \<open>main\<close>.
\<close>

record crawl =
  network :: graph
  multi_handle :: "string list"
  pending :: int
  complete :: int
  broken_links :: "(int \<times> string) list"
  still_running :: int

section \<open>Link discovery\<close>

text \<open>
  The body of the \<open>for\<close> loop of \<open>follow_links\<close> (lines 140 to 169) as a recursion over
  the remaining nodes. \<open>uri\<close> is the \<open>xmlURI\<close> object shared by the iterations and \<open>count\<close>
  the local counter. \<open>continue\<close> is the recursive call, \<open>break\<close> returns.
\<close>

fun links_loop ::
  "config \<Rightarrow> libxml \<Rightarrow> string \<Rightarrow> string option list \<Rightarrow> xmlURI \<Rightarrow> nat \<Rightarrow> crawl \<Rightarrow> nat \<times> crawl"
where
  "links_loop cfg lib url [] uri count s = (count, s)"
| "links_loop cfg lib url (node # nodes) uri count s =
     (let href = (if follow_relative_links cfg \<noteq> 0 then xmlBuildURI lib node url else node);
          uri' = (xmlParseURIReference lib uri href)\<lparr>fragment := None\<rparr>
      in case xmlSaveUri lib uri' of
           None \<Rightarrow> links_loop cfg lib url nodes uri' count s
         | Some link \<Rightarrow>
             if length link < 20 then links_loop cfg lib url nodes uri' count s
             else if strncmp link ''http://'' 7 = 0 \<or> strncmp link ''https://'' 8 = 0 then
               if graph_has (network s) link then
                 links_loop cfg lib url nodes uri' count
                   (s\<lparr>network := insert_edge (network s) url link\<rparr>)
               else
                 let s' = s\<lparr>network := insert_edge (network s) url link,
                            multi_handle := multi_handle s @ [link]\<rparr>
                 in if count = max_link_per_page cfg then (Suc count, s')
                    else links_loop cfg lib url nodes uri' (Suc count) s'
             else links_loop cfg lib url nodes uri' count s)"

text \<open>\<open>follow_links\<close> (line 111). The result is the returned count and the new state.\<close>

definition follow_links :: "config \<Rightarrow> libxml \<Rightarrow> string \<Rightarrow> string \<Rightarrow> crawl \<Rightarrow> nat \<times> crawl" where
  "follow_links cfg lib mem url s =
     (if strncmp url (start_url cfg) (length (start_url cfg)) \<noteq> 0 then (0, s)
      else case anchor_hrefs lib mem url of
             None \<Rightarrow> (0, s)
           | Some nodes \<Rightarrow> links_loop cfg lib url nodes xmlCreateURI 0 s)"

section \<open>The transport collaborator and the completion handler\<close>

text \<open>
  libcurl is an external library. A \<open>CURLMsg\<close> read by \<open>curl_multi_info_read\<close> carries the
  kind of message, the easy handle it is about and the transfer's result code; the record
  also holds what \<open>curl_easy_getinfo\<close> reports for that handle: the private pointer (the
  body buffer filled by \<open>writer\<close>), the effective URL, the response code (a \<open>long\<close>) and
  the nullable content type.
\<close>

datatype CURLMSG = CURLMSG_NONE | CURLMSG_DONE

datatype CURLcode = CURLE_OK | CURLE_ERROR nat

record CURLMsg =
  msg :: CURLMSG
  easy_handle :: string
  result :: CURLcode
  info_private :: string
  effective_url :: string
  response_code :: int
  content_type :: "string option"

text \<open>The conversion \<open>(int)res_status\<close> of line 304, from a 64-bit to a 32-bit integer.\<close>

definition int_of_long :: "int \<Rightarrow> int" where
  "int_of_long x = (x + 2 ^ 31) mod 2 ^ 32 - 2 ^ 31"

text \<open>
  The body of \<open>if (m->msg == CURLMSG_DONE)\<close> (lines 284 to 316). Printing is left out.
  \<open>curl_multi_remove_handle\<close> takes one occurrence of the handle out of the multi handle.
\<close>

definition handle_done :: "config \<Rightarrow> libxml \<Rightarrow> CURLMsg \<Rightarrow> crawl \<Rightarrow> crawl" where
  "handle_done cfg lib m s =
     (let url = effective_url m;
          mem = info_private m;
          s1 =
            (if result m = CURLE_OK then
               if response_code m = 200 then
                 if is_html (content_type m) \<and> 100 < length mem then
                   if pending s < max_requests cfg \<and> complete s + pending s < max_total cfg
                   then
                     case follow_links cfg lib mem url s of
                       (n, s') \<Rightarrow> s'\<lparr>pending := pending s' + int n, still_running := 1\<rparr>
                   else s
                 else s
               else s\<lparr>broken_links := broken_links s @ [(int_of_long (response_code m), url)]\<rparr>
             else s)
      in s1\<lparr>multi_handle := remove1 (easy_handle m) (multi_handle s1),
            complete := complete s1 + 1,
            pending := pending s1 - 1\<rparr>)"

text \<open>The inner loop (line 282) over the messages that \<open>curl_multi_info_read\<close> returns.\<close>

fun read_messages :: "config \<Rightarrow> libxml \<Rightarrow> CURLMsg list \<Rightarrow> crawl \<Rightarrow> crawl" where
  "read_messages cfg lib [] s = s"
| "read_messages cfg lib (m # ms) s =
     read_messages cfg lib ms (if msg m = CURLMSG_DONE then handle_done cfg lib m s else s)"

text \<open>
  One iteration of the outer loop (line 275) observes three things that the program does
  not control: whether the interrupt flag is set when the loop condition is tested, the
  number that \<open>curl_multi_perform\<close> stores in \<open>still_running\<close>, and the messages then
  read. A run is driven by the list of these observations; when the list ends the run has
  been followed up to that point, so the result of \<open>main_loop\<close> on the prefixes of a trace
  gives the state after every iteration.
\<close>

record round =
  interrupt :: bool
  running :: int
  messages :: "CURLMsg list"

fun main_loop :: "config \<Rightarrow> libxml \<Rightarrow> round list \<Rightarrow> crawl \<Rightarrow> crawl" where
  "main_loop cfg lib [] s = s"
| "main_loop cfg lib (r # rs) s =
     (if still_running s \<noteq> 0 \<and> \<not> interrupt r then
        main_loop cfg lib rs
          (read_messages cfg lib (messages r) (s\<lparr>still_running := running r\<rparr>))
      else s)"

text \<open>
  The state when the loop is entered (lines 266 to 274): the handle of the start URL has
  been added to the multi handle, the graph is empty and the counters are zero.
\<close>

definition crawl_start :: "config \<Rightarrow> crawl" where
  "crawl_start cfg =
     \<lparr>network = Map.empty, multi_handle = [start_url cfg], pending = 0, complete = 0,
      broken_links = [], still_running = 1\<rparr>"

text \<open>
  libcurl reports the completion of a transfer only for a handle that is in the multi
  handle. \<open>messages_ok\<close> and \<open>rounds_ok\<close> say that a trace respects this.
\<close>

fun messages_ok :: "config \<Rightarrow> libxml \<Rightarrow> CURLMsg list \<Rightarrow> crawl \<Rightarrow> bool" where
  "messages_ok cfg lib [] s = True"
| "messages_ok cfg lib (m # ms) s =
     (if msg m = CURLMSG_DONE then
        easy_handle m \<in> set (multi_handle s) \<and> messages_ok cfg lib ms (handle_done cfg lib m s)
      else messages_ok cfg lib ms s)"

fun rounds_ok :: "config \<Rightarrow> libxml \<Rightarrow> round list \<Rightarrow> crawl \<Rightarrow> bool" where
  "rounds_ok cfg lib [] s = True"
| "rounds_ok cfg lib (r # rs) s =
     (if still_running s \<noteq> 0 \<and> \<not> interrupt r then
        messages_ok cfg lib (messages r) (s\<lparr>still_running := running r\<rparr>) \<and>
        rounds_ok cfg lib rs
          (read_messages cfg lib (messages r) (s\<lparr>still_running := running r\<rparr>))
      else True)"

text \<open>
  The number of fetches in flight is the number of handles in the multi handle (a
  transfer that has ended is counted until its message is read and its handle removed).
  Every handle ever added is either still there or was removed when its completion was
  counted, so the number of fetches scheduled so far is the sum of the two.
\<close>

definition in_flight :: "crawl \<Rightarrow> int" where
  "in_flight s = int (length (multi_handle s))"

definition total_scheduled :: "crawl \<Rightarrow> int" where
  "total_scheduled s = complete s + in_flight s"

section \<open>Concrete collaborators for the examples\<close>

text \<open>
  A small site: \<open>site_lib pages\<close> is a library whose HTML parser finds, on the page at
  \<open>url\<close>, the hrefs that \<open>pages\<close> lists for it. Its URI functions cut a reference at the
  first \<open>#\<close>: what comes before is kept whole in \<open>path\<close>, what comes after is the
  fragment, and saving puts the two together again. References are taken as absolute.
\<close>

definition site_hrefs :: "(string \<times> string list) list \<Rightarrow> string \<Rightarrow> string \<Rightarrow> string option list option" where
  "site_hrefs pages mem url =
     (case map_of pages url of
        None \<Rightarrow> None
      | Some hrefs \<Rightarrow> if hrefs = [] then None else Some (map Some hrefs))"

definition cut_fragment :: "xmlURI \<Rightarrow> string option \<Rightarrow> xmlURI" where
  "cut_fragment uri str =
     (case str of
        None \<Rightarrow> uri
      | Some t \<Rightarrow>
          \<lparr>scheme = None, authority = None,
           path = Some (takeWhile (\<lambda>c. c \<noteq> CHR ''#'') t), query = None,
           fragment = (case dropWhile (\<lambda>c. c \<noteq> CHR ''#'') t of
                         [] \<Rightarrow> None | c # f \<Rightarrow> Some f)\<rparr>)"

definition paste_fragment :: "xmlURI \<Rightarrow> string option" where
  "paste_fragment uri =
     Some ((case path uri of None \<Rightarrow> [] | Some p \<Rightarrow> p) @
           (case fragment uri of None \<Rightarrow> [] | Some f \<Rightarrow> CHR ''#'' # f))"

definition site_lib :: "(string \<times> string list) list \<Rightarrow> libxml" where
  "site_lib pages =
     \<lparr>anchor_hrefs = site_hrefs pages,
      xmlBuildURI = (\<lambda>href base. href),
      xmlParseURIReference = cut_fragment,
      xmlSaveUri = paste_fragment\<rparr>"

text \<open>The parameters as crawl.cpp initialises them, for a given start URL.\<close>

definition default_config :: "string \<Rightarrow> config" where
  "default_config seed =
     \<lparr>max_con = 200, max_total = 20000, max_requests = 500, max_link_per_page = 20,
      follow_relative_links = 1, start_url = seed\<rparr>"

text \<open>A completed transfer with status 200 and an HTML body of 101 bytes.\<close>

definition html_ok :: "string \<Rightarrow> CURLMsg" where
  "html_ok url =
     \<lparr>msg = CURLMSG_DONE, easy_handle = url, result = CURLE_OK,
      info_private = replicate 101 (CHR ''a''), effective_url = url, response_code = 200,
      content_type = Some ''text/html; charset=utf-8''\<rparr>"

text \<open>
  A link that passes the filters of lines 149 to 155: it is what \<open>xmlSaveUri\<close> returns for
  a URI whose fragment has been cleared, it has at least 20 characters, and it begins
  with \<open>http://\<close> or \<open>https://\<close>.
\<close>

definition candidate :: "libxml \<Rightarrow> string \<Rightarrow> bool" where
  "candidate lib link =
     ((\<exists>uri. fragment uri = None \<and> xmlSaveUri lib uri = Some link) \<and>
      20 \<le> length link \<and> (prefix ''http://'' link \<or> prefix ''https://'' link))"

text \<open>
  The site that the examples below crawl: its root page links to five pages, and the
  first of these links to a sixth.
\<close>

definition root_url :: string where
  "root_url = ''http://example.com/''"

definition five_links :: "string list" where
  "five_links =
     [''http://example.com/page1'', ''http://example.com/page2'', ''http://example.com/page3'',
      ''http://example.com/page4'', ''http://example.com/page5'']"

definition example_site :: libxml where
  "example_site =
     site_lib [(root_url, five_links),
               (''http://example.com/page1'', [''http://example.com/page6''])]"

text \<open>
  The points of a run. \<open>classify_done\<close> is the state after the branches of lines 289 to
  311, before the handle is removed and the completion counted; \<open>handle_points\<close> lists
  the states after the branches and after each of the three statements of lines 312 to
  316. Inside \<open>follow_links\<close> the counters keep the values they have when it is called.
  \<open>read_points\<close> and \<open>loop_points\<close> collect these states over the inner and the outer
  loop, together with the states at the loop test and after \<open>curl_multi_perform\<close>.
\<close>

definition classify_done :: "config \<Rightarrow> libxml \<Rightarrow> CURLMsg \<Rightarrow> crawl \<Rightarrow> crawl" where
  "classify_done cfg lib m s =
     (let url = effective_url m;
          mem = info_private m
      in if result m = CURLE_OK then
           if response_code m = 200 then
             if is_html (content_type m) \<and> 100 < length mem then
               if pending s < max_requests cfg \<and> complete s + pending s < max_total cfg
               then
                 case follow_links cfg lib mem url s of
                   (n, s') \<Rightarrow> s'\<lparr>pending := pending s' + int n, still_running := 1\<rparr>
               else s
             else s
           else s\<lparr>broken_links := broken_links s @ [(int_of_long (response_code m), url)]\<rparr>
         else s)"

definition handle_points :: "config \<Rightarrow> libxml \<Rightarrow> CURLMsg \<Rightarrow> crawl \<Rightarrow> crawl list" where
  "handle_points cfg lib m s =
     (let s1 = classify_done cfg lib m s;
          s2 = s1\<lparr>multi_handle := remove1 (easy_handle m) (multi_handle s1)\<rparr>;
          s3 = s2\<lparr>complete := complete s2 + 1\<rparr>;
          s4 = s3\<lparr>pending := pending s3 - 1\<rparr>
      in [s1, s2, s3, s4])"

fun read_points :: "config \<Rightarrow> libxml \<Rightarrow> CURLMsg list \<Rightarrow> crawl \<Rightarrow> crawl list" where
  "read_points cfg lib [] s = []"
| "read_points cfg lib (m # ms) s =
     (if msg m = CURLMSG_DONE then
        handle_points cfg lib m s @ read_points cfg lib ms (handle_done cfg lib m s)
      else read_points cfg lib ms s)"

fun loop_points :: "config \<Rightarrow> libxml \<Rightarrow> round list \<Rightarrow> crawl \<Rightarrow> crawl list" where
  "loop_points cfg lib [] s = [s]"
| "loop_points cfg lib (r # rs) s =
     (if still_running s \<noteq> 0 \<and> \<not> interrupt r then
        s # s\<lparr>still_running := running r\<rparr> #
        read_points cfg lib (messages r) (s\<lparr>still_running := running r\<rparr>) @
        loop_points cfg lib rs
          (read_messages cfg lib (messages r) (s\<lparr>still_running := running r\<rparr>))
      else [s])"

text \<open>
  The invariant of the counters between two completions, where \<open>K\<close> bounds the number of
  fetches that one page schedules.
\<close>

definition counters_inv :: "config \<Rightarrow> nat \<Rightarrow> crawl \<Rightarrow> bool" where
  "counters_inv cfg K s =
     (pending s \<le> max 0 (max_requests cfg + int K - 2) \<and>
      complete s + pending s \<le> max 0 (max_total cfg + int K - 1))"

text \<open>
  On a trace that libcurl can produce, the multi handle holds one handle more than
  \<open>pending\<close> counts: the handle of the start URL is added before \<open>pending\<close> is set to 0.
\<close>

definition run_inv :: "crawl \<Rightarrow> bool" where
  "run_inv s = (in_flight s = pending s + 1)"

text \<open>
  A run with small caps, and the round in which the root page completes. The caps leave
  room for the start page even when its own fetch is counted, and the page has fewer
  links than \<open>max_link_per_page\<close>.
\<close>

definition tight_config :: config where
  "tight_config = (default_config root_url)\<lparr>max_requests := 2, max_total := 3\<rparr>"

definition root_done :: "round list" where
  "root_done = [\<lparr>interrupt = False, running = 0, messages = [html_ok root_url]\<rparr>]"

text \<open>
  What \<open>follow_links\<close> may add to the state \<open>s\<close> when it is called for the page at
  \<open>url\<close>: every handle added to the multi handle is a candidate, every vertex added to
  the graph is a candidate or the page itself, and every edge added leads from the page
  to a candidate.
\<close>

definition only_candidates :: "libxml \<Rightarrow> string \<Rightarrow> crawl \<Rightarrow> crawl \<Rightarrow> bool" where
  "only_candidates lib url s t =
     ((\<forall>l. l \<in> set (multi_handle t) \<and> l \<notin> set (multi_handle s) \<longrightarrow> candidate lib l) \<and>
      (\<forall>l. graph_has (network t) l \<and> \<not> graph_has (network s) l \<and> l \<noteq> url \<longrightarrow> candidate lib l) \<and>
      (\<forall>a b. has_edge (network t) a b \<and> \<not> has_edge (network s) a b \<longrightarrow>
               a = url \<and> candidate lib b))"

text \<open>
  A root page with four anchors: a link with a fragment, the same link without it, a
  link of fewer than 20 characters and a link with another scheme.
\<close>

definition frag_site :: libxml where
  "frag_site =
     site_lib [(root_url,
       [''http://example.com/page#frag'', ''http://example.com/page'', ''http://x/y#frag'',
        ''ftp://example.com/pub/file.txt''])]"

text \<open>
  The state of the run with small caps after the root page has completed, and the
  completion of the first of its five pages.
\<close>

definition over_cap :: crawl where
  "over_cap = main_loop tight_config example_site root_done (crawl_start tight_config)"

definition page1_done :: CURLMsg where
  "page1_done = html_ok ''http://example.com/page1''"

text \<open>Runs with \<open>--max-total 1\<close> and with \<open>--max-link-per-page 2\<close>.\<close>

definition single_config :: config where
  "single_config = (default_config root_url)\<lparr>max_total := 1\<rparr>"

definition two_per_page :: config where
  "two_per_page = (default_config root_url)\<lparr>max_link_per_page := 2\<rparr>"

text \<open>
  A start page whose only anchor points to the page itself, and the two rounds in which
  a fetch of that URL completes.
\<close>

definition index_url :: string where
  "index_url = ''http://example.com/index.html''"

definition self_site :: libxml where
  "self_site = site_lib [(index_url, [index_url])]"

definition fetched_twice :: "round list" where
  "fetched_twice =
     [\<lparr>interrupt = False, running = 0, messages = [html_ok index_url]\<rparr>,
      \<lparr>interrupt = False, running = 0, messages = [html_ok index_url]\<rparr>]"

section \<open>Facts about the string functions\<close>

lemma strncmp_prefix: "strncmp s t (length t) = 0 \<longleftrightarrow> prefix t s"
proof (induction t arbitrary: s)
  case Nil
  show ?case by simp
next
  case (Cons c t)
  show ?case
  proof (cases s)
    case Nil
    then show ?thesis by simp
  next
    case (Cons d s')
    with Cons.IH [of s'] show ?thesis by simp
  qed
qed

lemma strncmp_http: "strncmp link ''http://'' 7 = 0 \<longleftrightarrow> prefix ''http://'' link"
proof -
  have "(7::nat) = length ''http://''" by simp
  then show ?thesis by (simp only: strncmp_prefix)
qed

lemma strncmp_https: "strncmp link ''https://'' 8 = 0 \<longleftrightarrow> prefix ''https://'' link"
proof -
  have "(8::nat) = length ''https://''" by simp
  then show ?thesis by (simp only: strncmp_prefix)
qed

lemma strstr_None: "strstr h n = None \<longleftrightarrow> (\<forall>a b. h \<noteq> a @ n @ b)"
proof (induction h)
  case Nil
  show ?case by auto
next
  case (Cons c cs)
  show ?case
  proof (cases "prefix n (c # cs)")
    case True
    then obtain b where b: "c # cs = n @ b" by (auto simp: prefix_def)
    have ex: "\<exists>a b. c # cs = a @ n @ b"
      using b by (intro exI [of _ "[]"] exI [of _ b]) simp
    from True have "strstr (c # cs) n \<noteq> None" by simp
    with ex show ?thesis by blast
  next
    case False
    have "(\<exists>a b. c # cs = a @ n @ b) \<longleftrightarrow> (\<exists>a b. cs = a @ n @ b)"
    proof
      assume "\<exists>a b. c # cs = a @ n @ b"
      then obtain a b where ab: "c # cs = a @ n @ b" by blast
      show "\<exists>a b. cs = a @ n @ b"
      proof (cases a)
        case Nil
        with ab have "prefix n (c # cs)" by (simp add: prefix_def)
        with False show ?thesis by simp
      next
        case (Cons d a')
        with ab have "cs = a' @ n @ b" by simp
        then show ?thesis by blast
      qed
    next
      assume "\<exists>a b. cs = a @ n @ b"
      then obtain a b where "cs = a @ n @ b" by blast
      then have "c # cs = (c # a) @ n @ b" by simp
      then show "\<exists>a b. c # cs = a @ n @ b" by blast
    qed
    then have "(\<forall>a b. c # cs \<noteq> a @ n @ b) \<longleftrightarrow> (\<forall>a b. cs \<noteq> a @ n @ b)"
      by blast
    moreover from False have "strstr (c # cs) n = strstr cs n" by simp
    ultimately show ?thesis using Cons.IH by simp
  qed
qed

lemma is_html_iff:
  "is_html ctype \<longleftrightarrow>
     (\<exists>c. ctype = Some c \<and> 10 < length c \<and> (\<exists>a b. c = a @ ''text/html'' @ b))"
  by (cases ctype) (auto simp: is_html_def strstr_None)

lemma int_of_long_id: "- (2 ^ 31) \<le> x \<Longrightarrow> x < 2 ^ 31 \<Longrightarrow> int_of_long x = x"
  by (simp add: int_of_long_def)

section \<open>An invariant rule for the loop of \<open>follow_links\<close>\<close>

text \<open>
  \<open>I\<close> holds of the counter and the state at the head of the loop, \<open>Q\<close> when the loop is
  left, by exhausting the nodes or by \<open>break\<close>.
\<close>

lemma links_loop_rule:
  assumes init: "I count s"
    and seen: "\<And>c t link. I c t \<Longrightarrow> candidate lib link \<Longrightarrow> graph_has (network t) link \<Longrightarrow>
                 I c (t\<lparr>network := insert_edge (network t) url link\<rparr>)"
    and new: "\<And>c t link. I c t \<Longrightarrow> candidate lib link \<Longrightarrow> \<not> graph_has (network t) link \<Longrightarrow>
                 c \<noteq> max_link_per_page cfg \<Longrightarrow>
                 I (Suc c) (t\<lparr>network := insert_edge (network t) url link,
                              multi_handle := multi_handle t @ [link]\<rparr>)"
    and brk: "\<And>c t link. I c t \<Longrightarrow> candidate lib link \<Longrightarrow> \<not> graph_has (network t) link \<Longrightarrow>
                 c = max_link_per_page cfg \<Longrightarrow>
                 Q (Suc c) (t\<lparr>network := insert_edge (network t) url link,
                              multi_handle := multi_handle t @ [link]\<rparr>)"
    and fin: "\<And>c t. I c t \<Longrightarrow> Q c t"
  shows "Q (fst (links_loop cfg lib url nodes uri count s))
           (snd (links_loop cfg lib url nodes uri count s))"
  using init
proof (induction nodes arbitrary: uri count s)
  case Nil
  then show ?case by (simp add: fin)
next
  case (Cons node nodes)
  define href where
    "href = (if follow_relative_links cfg \<noteq> 0 then xmlBuildURI lib node url else node)"
  define uri' where "uri' = (xmlParseURIReference lib uri href)\<lparr>fragment := None\<rparr>"
  have frag: "fragment uri' = None" by (simp add: uri'_def)
  show ?case
  proof (cases "xmlSaveUri lib uri'")
    case None
    with Cons.IH [OF Cons.prems, of uri'] show ?thesis
      by (simp add: href_def uri'_def Let_def)
  next
    case (Some link)
    show ?thesis
    proof (cases "20 \<le> length link \<and> (prefix ''http://'' link \<or> prefix ''https://'' link)")
      case False
      with Some Cons.IH [OF Cons.prems, of uri'] show ?thesis
        by (auto simp: href_def uri'_def Let_def strncmp_http strncmp_https)
    next
      case True
      with Some frag have cand: "candidate lib link"
        unfolding candidate_def by blast
      show ?thesis
      proof (cases "graph_has (network s) link")
        case seen': True
        from Cons.IH [OF seen [OF Cons.prems cand seen'], of uri'] Some True seen'
        show ?thesis
          by (auto simp: href_def uri'_def Let_def strncmp_http strncmp_https)
      next
        case new': False
        show ?thesis
        proof (cases "count = max_link_per_page cfg")
          case at_cap: True
          from brk [OF Cons.prems cand new' at_cap] Some True new' at_cap
          show ?thesis
            by (auto simp: href_def uri'_def Let_def strncmp_http strncmp_https)
        next
          case below: False
          from Cons.IH [OF new [OF Cons.prems cand new' below], of uri'] Some True new' below
          show ?thesis
            by (auto simp: href_def uri'_def Let_def strncmp_http strncmp_https)
        qed
      qed
    qed
  qed
qed

lemma links_loop_locals:
  "pending (snd (links_loop cfg lib url nodes uri count s)) = pending s \<and>
   complete (snd (links_loop cfg lib url nodes uri count s)) = complete s \<and>
   broken_links (snd (links_loop cfg lib url nodes uri count s)) = broken_links s \<and>
   still_running (snd (links_loop cfg lib url nodes uri count s)) = still_running s"
  by (rule links_loop_rule
        [where I = "\<lambda>c t. pending t = pending s \<and> complete t = complete s \<and>
                           broken_links t = broken_links s \<and> still_running t = still_running s"])
     simp_all

lemma follow_links_locals:
  "pending (snd (follow_links cfg lib mem url s)) = pending s \<and>
   complete (snd (follow_links cfg lib mem url s)) = complete s \<and>
   broken_links (snd (follow_links cfg lib mem url s)) = broken_links s \<and>
   still_running (snd (follow_links cfg lib mem url s)) = still_running s"
  by (simp add: follow_links_def links_loop_locals split: option.split)

section \<open>Link discovery outside the start URL\<close>

text \<open>
  Claim C6. When the text of the base URL does not begin with the start URL,
  \<open>follow_links\<close> returns 0 and leaves the state as it was: no edge is recorded and no
  handle is added to the multi handle.
\<close>

theorem follow_links_outside_start_url:
  assumes "\<not> prefix (start_url cfg) url"
  shows "follow_links cfg lib mem url s = (0, s)"
  using assms by (simp add: follow_links_def strncmp_prefix)

text \<open>The example of the comment at line 113: start at \<open>/foo\<close>, page at \<open>/bar\<close>.\<close>

theorem follow_links_outside_start_url_witness:
  "\<not> prefix (start_url (default_config ''https://www.example.com/foo''))
       ''https://www.example.com/bar'' \<and>
   follow_links (default_config ''https://www.example.com/foo'')
     (site_lib [(''https://www.example.com/bar'', [''https://www.example.com/foo/page1''])])
     (replicate 101 (CHR ''a'')) ''https://www.example.com/bar''
     (crawl_start (default_config ''https://www.example.com/foo'')) =
   (0, crawl_start (default_config ''https://www.example.com/foo''))"
proof -
  have h: "\<not> prefix (start_url (default_config ''https://www.example.com/foo''))
             ''https://www.example.com/bar''"
    by (simp add: default_config_def)
  from h follow_links_outside_start_url [OF h] show ?thesis by blast
qed

section \<open>Classification of completed transfers\<close>

text \<open>
  Claim C8. Handling a completed transfer appends the entry (status, effective URL) to
  the list of broken links exactly when the transfer succeeded with a status other than
  200; in every other case, a transport failure among them, the list is unchanged. The
  completion is counted in every case. The status is stored after the conversion from
  \<open>long\<close> to \<open>int\<close>, which changes no value of the \<open>int\<close> range.
\<close>

theorem broken_link_iff_http_error:
  "(broken_links (handle_done cfg lib m s) =
      broken_links s @ [(int_of_long (response_code m), effective_url m)]
    \<longleftrightarrow> result m = CURLE_OK \<and> response_code m \<noteq> 200) \<and>
   (result m \<noteq> CURLE_OK \<or> response_code m = 200
    \<longrightarrow> broken_links (handle_done cfg lib m s) = broken_links s) \<and>
   complete (handle_done cfg lib m s) = complete s + 1 \<and>
   (- (2 ^ 31) \<le> response_code m \<and> response_code m < 2 ^ 31
    \<longrightarrow> int_of_long (response_code m) = response_code m)"
  by (simp add: handle_done_def Let_def case_prod_beta follow_links_locals int_of_long_id)

theorem broken_link_iff_http_error_witness:
  "broken_links (handle_done (default_config root_url) example_site
     ((html_ok root_url)\<lparr>response_code := 404\<rparr>) (crawl_start (default_config root_url))) =
     [(404, root_url)] \<and>
   broken_links (handle_done (default_config root_url) example_site
     ((html_ok root_url)\<lparr>result := CURLE_ERROR 7\<rparr>) (crawl_start (default_config root_url))) =
     [] \<and>
   complete (handle_done (default_config root_url) example_site
     ((html_ok root_url)\<lparr>result := CURLE_ERROR 7\<rparr>) (crawl_start (default_config root_url))) =
     1"
  using
    broken_link_iff_http_error [of "default_config root_url" example_site
      "(html_ok root_url)\<lparr>response_code := 404\<rparr>" "crawl_start (default_config root_url)"]
    broken_link_iff_http_error [of "default_config root_url" example_site
      "(html_ok root_url)\<lparr>result := CURLE_ERROR 7\<rparr>" "crawl_start (default_config root_url)"]
  by (simp add: html_ok_def crawl_start_def)

section \<open>The content type test\<close>

text \<open>
  Claim C10. \<open>is_html\<close> holds only of a content type that is longer than 10 characters
  and contains \<open>text/html\<close>; it fails on the 9 characters \<open>text/html\<close> themselves. When it
  fails, handling the completion performs no discovery: the graph is unchanged, the only
  change to the multi handle is the removal of the completed handle, \<open>pending\<close> goes down
  by one and \<open>still_running\<close> is not set.
\<close>

theorem discovery_needs_long_html_content_type:
  "(is_html ctype \<longleftrightarrow>
      (\<exists>c. ctype = Some c \<and> 10 < length c \<and> (\<exists>a b. c = a @ ''text/html'' @ b))) \<and>
   \<not> is_html (Some ''text/html'') \<and>
   (\<not> is_html (content_type m) \<longrightarrow>
      network (handle_done cfg lib m s) = network s \<and>
      multi_handle (handle_done cfg lib m s) = remove1 (easy_handle m) (multi_handle s) \<and>
      pending (handle_done cfg lib m s) = pending s - 1 \<and>
      still_running (handle_done cfg lib m s) = still_running s)"
proof (intro conjI impI)
  show "is_html ctype \<longleftrightarrow>
      (\<exists>c. ctype = Some c \<and> 10 < length c \<and> (\<exists>a b. c = a @ ''text/html'' @ b))"
    by (rule is_html_iff)
  show "\<not> is_html (Some ''text/html'')"
    by (simp add: is_html_def)
next
  assume "\<not> is_html (content_type m)"
  then show "network (handle_done cfg lib m s) = network s"
    and "multi_handle (handle_done cfg lib m s) = remove1 (easy_handle m) (multi_handle s)"
    and "pending (handle_done cfg lib m s) = pending s - 1"
    and "still_running (handle_done cfg lib m s) = still_running s"
    by (simp_all add: handle_done_def Let_def)
qed

text \<open>
  The start page served as \<open>text/html\<close> is not followed; served as
  \<open>text/html; charset=utf-8\<close> its five links are scheduled.
\<close>

theorem discovery_needs_long_html_content_type_witness:
  "\<not> is_html (content_type ((html_ok root_url)\<lparr>content_type := Some ''text/html''\<rparr>)) \<and>
   multi_handle (handle_done (default_config root_url) example_site
     ((html_ok root_url)\<lparr>content_type := Some ''text/html''\<rparr>)
     (crawl_start (default_config root_url))) = [] \<and>
   multi_handle (handle_done (default_config root_url) example_site (html_ok root_url)
     (crawl_start (default_config root_url))) = five_links"
proof -
  have h: "\<not> is_html (content_type ((html_ok root_url)\<lparr>content_type := Some ''text/html''\<rparr>))"
    by (simp add: is_html_def)
  have followed: "multi_handle (handle_done (default_config root_url) example_site
     (html_ok root_url) (crawl_start (default_config root_url))) = five_links"
    by code_simp
  from discovery_needs_long_html_content_type
         [of None "(html_ok root_url)\<lparr>content_type := Some ''text/html''\<rparr>"
            "default_config root_url" example_site "crawl_start (default_config root_url)"] h
  have "multi_handle (handle_done (default_config root_url) example_site
     ((html_ok root_url)\<lparr>content_type := Some ''text/html''\<rparr>)
     (crawl_start (default_config root_url))) =
     remove1 (easy_handle ((html_ok root_url)\<lparr>content_type := Some ''text/html''\<rparr>))
       (multi_handle (crawl_start (default_config root_url)))"
    by blast
  then show ?thesis using h followed
    by (simp add: html_ok_def crawl_start_def default_config_def)
qed

section \<open>The caps on pending and total requests\<close>

lemma links_loop_schedule:
  assumes "count \<le> max_link_per_page cfg"
  shows "\<exists>new. multi_handle (snd (links_loop cfg lib url nodes uri count s)) = multi_handle s @ new \<and>
               fst (links_loop cfg lib url nodes uri count s) = count + length new \<and>
               fst (links_loop cfg lib url nodes uri count s) \<le> max_link_per_page cfg + 1"
  by (rule links_loop_rule
        [where I = "\<lambda>c t. \<exists>new. multi_handle t = multi_handle s @ new \<and> c = count + length new \<and>
                                 c \<le> max_link_per_page cfg"
           and Q = "\<lambda>c t. \<exists>new. multi_handle t = multi_handle s @ new \<and> c = count + length new \<and>
                                 c \<le> max_link_per_page cfg + 1"])
     (use assms in auto)

lemma follow_links_schedule:
  "\<exists>new. multi_handle (snd (follow_links cfg lib mem url s)) = multi_handle s @ new \<and>
         fst (follow_links cfg lib mem url s) = length new \<and>
         length new \<le> max_link_per_page cfg + 1"
proof (cases "strncmp url (start_url cfg) (length (start_url cfg)) \<noteq> 0 \<or>
              anchor_hrefs lib mem url = None")
  case True
  then show ?thesis by (auto simp: follow_links_def)
next
  case False
  then obtain nodes where "anchor_hrefs lib mem url = Some nodes" by auto
  with False have "follow_links cfg lib mem url s = links_loop cfg lib url nodes xmlCreateURI 0 s"
    by (simp add: follow_links_def)
  with links_loop_schedule [of 0 cfg lib url nodes xmlCreateURI s] show ?thesis by auto
qed

lemma length_remove1_int:
  "x \<in> set xs \<Longrightarrow> int (length (remove1 x xs)) = int (length xs) - 1"
proof -
  assume x: "x \<in> set xs"
  have "0 < length xs" using x by (rule length_pos_if_in_set)
  then have "1 \<le> length xs" by linarith
  then have "int (length xs - 1) = int (length xs) - 1" by (simp add: of_nat_diff)
  with x show ?thesis by (simp add: length_remove1)
qed

lemma handle_done_inv:
  assumes inv: "run_inv s" and h: "easy_handle m \<in> set (multi_handle s)"
  shows "run_inv (handle_done cfg lib m s)"
proof (cases "result m = CURLE_OK \<and> response_code m = 200 \<and> is_html (content_type m) \<and>
              100 < length (info_private m) \<and>
              pending s < max_requests cfg \<and> complete s + pending s < max_total cfg")
  case False
  then have "handle_done cfg lib m s =
       (if result m = CURLE_OK \<and> response_code m \<noteq> 200
        then s\<lparr>broken_links := broken_links s @ [(int_of_long (response_code m), effective_url m)]\<rparr>
        else s)
       \<lparr>multi_handle := remove1 (easy_handle m) (multi_handle s),
        complete := complete s + 1, pending := pending s - 1\<rparr>"
    by (auto simp: handle_done_def Let_def)
  with inv length_remove1_int [OF h] show ?thesis
    by (auto simp: run_inv_def in_flight_def)
next
  case True
  obtain new where new: "multi_handle (snd (follow_links cfg lib (info_private m) (effective_url m) s)) = multi_handle s @ new"
    "fst (follow_links cfg lib (info_private m) (effective_url m) s) = length new"
    "length new \<le> max_link_per_page cfg + 1"
    using follow_links_schedule by blast
  let ?s' = "handle_done cfg lib m s"
  from True new follow_links_locals [of cfg lib "info_private m" "effective_url m" s]
  have eqs: "multi_handle ?s' = remove1 (easy_handle m) (multi_handle s @ new)"
    "pending ?s' = pending s + int (length new) - 1"
    by (simp_all add: handle_done_def Let_def case_prod_beta)
  from h have "easy_handle m \<in> set (multi_handle s @ new)" by simp
  from length_remove1_int [OF this] eqs inv show ?thesis
    by (auto simp: run_inv_def in_flight_def)
qed

lemma read_messages_inv:
  "run_inv s \<Longrightarrow> messages_ok cfg lib ms s \<Longrightarrow> run_inv (read_messages cfg lib ms s)"
  by (induction ms arbitrary: s) (auto simp: handle_done_inv)

lemma run_inv_still_running: "run_inv (s\<lparr>still_running := n\<rparr>) = run_inv s"
  by (simp add: run_inv_def in_flight_def)

lemma main_loop_inv:
  "run_inv s \<Longrightarrow> rounds_ok cfg lib rs s \<Longrightarrow> run_inv (main_loop cfg lib rs s)"
proof (induction rs arbitrary: s)
  case Nil
  then show ?case by simp
next
  case (Cons r rs)
  show ?case
  proof (cases "still_running s \<noteq> 0 \<and> \<not> interrupt r")
    case False
    with Cons.prems show ?thesis by auto
  next
    case True
    let ?t = "read_messages cfg lib (messages r) (s\<lparr>still_running := running r\<rparr>)"
    from True Cons.prems have "run_inv ?t"
      by (intro read_messages_inv) (simp_all add: run_inv_still_running)
    moreover from True Cons.prems have "rounds_ok cfg lib rs ?t" by simp
    ultimately have "run_inv (main_loop cfg lib rs ?t)" by (rule Cons.IH)
    with True show ?thesis by simp
  qed
qed

lemma run_inv_start: "run_inv (crawl_start cfg)"
  by (simp add: run_inv_def crawl_start_def in_flight_def)

text \<open>
  A trace that libcurl can produce stays one when it is cut after any message of any
  round.
\<close>

lemma messages_ok_append:
  "messages_ok cfg lib (ms @ ms') s \<longleftrightarrow>
     messages_ok cfg lib ms s \<and> messages_ok cfg lib ms' (read_messages cfg lib ms s)"
  by (induction ms arbitrary: s) auto

lemma rounds_ok_cut:
  "rounds_ok cfg lib (rs @ r\<lparr>messages := ms @ ms'\<rparr> # rs') s \<Longrightarrow>
   rounds_ok cfg lib (rs @ [r\<lparr>messages := ms\<rparr>]) s"
  by (induction rs arbitrary: s) (auto simp: messages_ok_append)

subsection \<open>The counters at every point of the loop\<close>

lemma handle_done_classify:
  "handle_done cfg lib m s =
     (classify_done cfg lib m s)
       \<lparr>multi_handle := remove1 (easy_handle m) (multi_handle (classify_done cfg lib m s)),
        complete := complete (classify_done cfg lib m s) + 1,
        pending := pending (classify_done cfg lib m s) - 1\<rparr>"
  by (simp add: handle_done_def classify_done_def Let_def)

lemma last_handle_points: "last (handle_points cfg lib m s) = handle_done cfg lib m s"
  by (simp add: handle_points_def handle_done_classify Let_def)

text \<open>
  The branches add to \<open>pending\<close> the number \<open>k\<close> of fetches scheduled, which is positive
  only when both admission tests held, and leave \<open>complete\<close> alone.
\<close>

lemma classify_done_counters:
  assumes "\<forall>mem url s. fst (follow_links cfg lib mem url s) \<le> K"
  shows "\<exists>k\<le>K. (k = 0 \<or> pending s < max_requests cfg \<and> complete s + pending s < max_total cfg) \<and>
           pending (classify_done cfg lib m s) = pending s + int k \<and>
           complete (classify_done cfg lib m s) = complete s"
proof (cases "result m = CURLE_OK \<and> response_code m = 200 \<and> is_html (content_type m) \<and>
              100 < length (info_private m) \<and>
              pending s < max_requests cfg \<and> complete s + pending s < max_total cfg")
  case False
  then have "pending (classify_done cfg lib m s) = pending s + int 0 \<and>
             complete (classify_done cfg lib m s) = complete s"
    by (auto simp: classify_done_def Let_def)
  then show ?thesis by blast
next
  case True
  let ?k = "fst (follow_links cfg lib (info_private m) (effective_url m) s)"
  from assms have "?k \<le> K" by blast
  moreover from True follow_links_locals [of cfg lib "info_private m" "effective_url m" s]
  have "pending (classify_done cfg lib m s) = pending s + int ?k \<and>
        complete (classify_done cfg lib m s) = complete s"
    by (simp add: classify_done_def Let_def case_prod_beta)
  ultimately show ?thesis using True by blast
qed

lemma handle_points_bound:
  assumes K: "\<forall>mem url s. fst (follow_links cfg lib mem url s) \<le> K"
    and inv: "counters_inv cfg K s"
    and t: "t \<in> set (handle_points cfg lib m s)"
  shows "pending t \<le> max 1 (max_requests cfg + int K - 1) \<and>
         complete t + pending t \<le> max 1 (max_total cfg + int K)"
proof -
  from classify_done_counters [OF K, of s m] obtain k where k: "k \<le> K"
    "k = 0 \<or> pending s < max_requests cfg \<and> complete s + pending s < max_total cfg"
    "pending (classify_done cfg lib m s) = pending s + int k"
    "complete (classify_done cfg lib m s) = complete s"
    by blast
  from t have "(pending t = pending s + int k \<and> complete t = complete s) \<or>
               (pending t = pending s + int k \<and> complete t = complete s + 1) \<or>
               (pending t = pending s + int k - 1 \<and> complete t = complete s + 1)"
    by (auto simp: handle_points_def Let_def k)
  with k(1,2) inv show ?thesis
    unfolding counters_inv_def by linarith
qed

lemma handle_done_counters_inv:
  assumes K: "\<forall>mem url s. fst (follow_links cfg lib mem url s) \<le> K"
    and inv: "counters_inv cfg K s"
  shows "counters_inv cfg K (handle_done cfg lib m s)"
proof -
  from classify_done_counters [OF K, of s m] obtain k where k: "k \<le> K"
    "k = 0 \<or> pending s < max_requests cfg \<and> complete s + pending s < max_total cfg"
    "pending (classify_done cfg lib m s) = pending s + int k"
    "complete (classify_done cfg lib m s) = complete s"
    by blast
  have "pending (handle_done cfg lib m s) = pending s + int k - 1"
    "complete (handle_done cfg lib m s) = complete s + 1"
    by (simp_all add: handle_done_classify k)
  with k(1,2) inv show ?thesis
    unfolding counters_inv_def by linarith
qed

lemma counters_inv_bound:
  "counters_inv cfg K s \<Longrightarrow>
   pending s \<le> max 1 (max_requests cfg + int K - 1) \<and>
   complete s + pending s \<le> max 1 (max_total cfg + int K)"
  unfolding counters_inv_def by linarith

lemma counters_inv_still_running:
  "counters_inv cfg K (s\<lparr>still_running := n\<rparr>) = counters_inv cfg K s"
  by (simp add: counters_inv_def)

lemma read_messages_counters_inv:
  assumes K: "\<forall>mem url s. fst (follow_links cfg lib mem url s) \<le> K"
  shows "counters_inv cfg K s \<Longrightarrow> counters_inv cfg K (read_messages cfg lib ms s)"
  by (induction ms arbitrary: s) (simp_all add: handle_done_counters_inv [OF K])

lemma read_points_bound:
  assumes K: "\<forall>mem url s. fst (follow_links cfg lib mem url s) \<le> K"
  shows "counters_inv cfg K s \<Longrightarrow> t \<in> set (read_points cfg lib ms s) \<Longrightarrow>
         pending t \<le> max 1 (max_requests cfg + int K - 1) \<and>
         complete t + pending t \<le> max 1 (max_total cfg + int K)"
proof (induction ms arbitrary: s)
  case Nil
  then show ?case by simp
next
  case (Cons m ms)
  show ?case
  proof (cases "msg m = CURLMSG_DONE")
    case False
    with Cons show ?thesis by simp
  next
    case True
    with Cons.prems(2) consider "t \<in> set (handle_points cfg lib m s)"
      | "t \<in> set (read_points cfg lib ms (handle_done cfg lib m s))"
      by auto
    then show ?thesis
    proof cases
      case 1
      with K Cons.prems(1) show ?thesis by (rule handle_points_bound)
    next
      case 2
      from handle_done_counters_inv [OF K Cons.prems(1)] 2 show ?thesis
        by (rule Cons.IH)
    qed
  qed
qed

lemma main_loop_counters_inv:
  assumes K: "\<forall>mem url s. fst (follow_links cfg lib mem url s) \<le> K"
  shows "counters_inv cfg K s \<Longrightarrow> counters_inv cfg K (main_loop cfg lib rs s)"
  by (induction rs arbitrary: s)
     (simp_all add: read_messages_counters_inv [OF K] counters_inv_still_running)

lemma loop_points_bound:
  assumes K: "\<forall>mem url s. fst (follow_links cfg lib mem url s) \<le> K"
  shows "counters_inv cfg K s \<Longrightarrow> t \<in> set (loop_points cfg lib rs s) \<Longrightarrow>
         pending t \<le> max 1 (max_requests cfg + int K - 1) \<and>
         complete t + pending t \<le> max 1 (max_total cfg + int K)"
proof (induction rs arbitrary: s)
  case Nil
  then show ?case using counters_inv_bound by simp
next
  case (Cons r rs)
  let ?s' = "s\<lparr>still_running := running r\<rparr>"
  have inv': "counters_inv cfg K ?s'"
    using Cons.prems(1) by (simp add: counters_inv_still_running)
  show ?case
  proof (cases "still_running s \<noteq> 0 \<and> \<not> interrupt r")
    case False
    with Cons.prems counters_inv_bound show ?thesis by simp
  next
    case True
    with Cons.prems(2) consider "t = s" | "t = ?s'"
      | "t \<in> set (read_points cfg lib (messages r) ?s')"
      | "t \<in> set (loop_points cfg lib rs (read_messages cfg lib (messages r) ?s'))"
      by auto
    then show ?thesis
    proof cases
      case 1
      from counters_inv_bound [OF Cons.prems(1)] 1 show ?thesis by simp
    next
      case 2
      from counters_inv_bound [OF inv'] 2 show ?thesis by simp
    next
      case 3
      with read_points_bound [OF K inv'] show ?thesis by simp
    next
      case 4
      from read_messages_counters_inv [OF K inv'] 4 show ?thesis
        by (rule Cons.IH)
    qed
  qed
qed

lemma counters_inv_start: "counters_inv cfg K (crawl_start cfg)"
  by (simp add: counters_inv_def crawl_start_def)

text \<open>
  Claim C1, as amended. The two caps are tested once per fetched page, before its links
  are followed, and not once per scheduled link: a completion handled while a test fails
  schedules nothing, and one handled while both hold may take the counts past the caps
  by the links of that page. So where no page schedules more than \<open>K\<close> fetches, on every
  run and at every point of the run loop \<open>pending\<close>, the loop's count of fetches in
  flight, is at most \<open>max_requests + K - 1\<close> and \<open>complete + pending\<close>, its count of
  fetches scheduled, at most \<open>max_total + K\<close>; between two completions they are at most
  \<open>max_requests + K - 2\<close> and \<open>max_total + K - 1\<close> (at most 1, respectively 0, where
  these numbers are smaller).
\<close>

theorem caps_hold_up_to_one_page:
  assumes "\<forall>mem url s. fst (follow_links cfg lib mem url s) \<le> K"
  shows "(\<forall>t \<in> set (loop_points cfg lib rounds (crawl_start cfg)).
            pending t \<le> max 1 (max_requests cfg + int K - 1) \<and>
            complete t + pending t \<le> max 1 (max_total cfg + int K)) \<and>
         pending (main_loop cfg lib rounds (crawl_start cfg)) \<le>
           max 0 (max_requests cfg + int K - 2) \<and>
         complete (main_loop cfg lib rounds (crawl_start cfg)) +
           pending (main_loop cfg lib rounds (crawl_start cfg)) \<le>
           max 0 (max_total cfg + int K - 1) \<and>
         (\<not> (pending s < max_requests cfg \<and> complete s + pending s < max_total cfg) \<longrightarrow>
            multi_handle (handle_done cfg lib m s) = remove1 (easy_handle m) (multi_handle s))"
proof (intro conjI ballI impI)
  fix t
  assume "t \<in> set (loop_points cfg lib rounds (crawl_start cfg))"
  with loop_points_bound [OF assms counters_inv_start]
  show "pending t \<le> max 1 (max_requests cfg + int K - 1)"
    and "complete t + pending t \<le> max 1 (max_total cfg + int K)"
    by blast+
next
  have "counters_inv cfg K (main_loop cfg lib rounds (crawl_start cfg))"
    using assms counters_inv_start by (rule main_loop_counters_inv)
  then show "pending (main_loop cfg lib rounds (crawl_start cfg)) \<le>
           max 0 (max_requests cfg + int K - 2)"
    and "complete (main_loop cfg lib rounds (crawl_start cfg)) +
           pending (main_loop cfg lib rounds (crawl_start cfg)) \<le>
           max 0 (max_total cfg + int K - 1)"
    by (simp_all add: counters_inv_def)
next
  assume "\<not> (pending s < max_requests cfg \<and> complete s + pending s < max_total cfg)"
  then show "multi_handle (handle_done cfg lib m s) = remove1 (easy_handle m) (multi_handle s)"
    by (auto simp: handle_done_def Let_def)
qed

text \<open>
  In the run with \<open>max_requests = 2\<close> and \<open>max_total = 3\<close> no page schedules more than 21
  fetches. The points of the run are the start, the state after \<open>curl_multi_perform\<close>,
  the four points of the handler and the state at the next loop test; \<open>pending\<close> is
  highest from the third point on, \<open>complete + pending\<close> from the fifth.
\<close>

theorem caps_hold_up_to_one_page_witness:
  "(\<forall>mem url s. fst (follow_links tight_config example_site mem url s) \<le> 21) \<and>
   map pending (loop_points tight_config example_site root_done (crawl_start tight_config)) =
     [0, 0, 5, 5, 5, 4, 4] \<and>
   map complete (loop_points tight_config example_site root_done (crawl_start tight_config)) =
     [0, 0, 0, 0, 1, 1, 1] \<and>
   pending (loop_points tight_config example_site root_done (crawl_start tight_config) ! 2)
     \<le> 22 \<and>
   complete (loop_points tight_config example_site root_done (crawl_start tight_config) ! 4) +
   pending (loop_points tight_config example_site root_done (crawl_start tight_config) ! 4)
     \<le> 24 \<and>
   pending (main_loop tight_config example_site root_done (crawl_start tight_config)) \<le> 21 \<and>
   complete (main_loop tight_config example_site root_done (crawl_start tight_config)) +
   pending (main_loop tight_config example_site root_done (crawl_start tight_config)) \<le> 23 \<and>
   \<not> (pending over_cap < max_requests tight_config \<and>
      complete over_cap + pending over_cap < max_total tight_config) \<and>
   multi_handle (handle_done tight_config example_site page1_done over_cap) =
     remove1 (easy_handle page1_done) (multi_handle over_cap)"
proof -
  let ?points = "loop_points tight_config example_site root_done (crawl_start tight_config)"
  let ?final = "main_loop tight_config example_site root_done (crawl_start tight_config)"
  have K: "\<forall>mem url s. fst (follow_links tight_config example_site mem url s) \<le> 21"
  proof (intro allI)
    fix mem url s
    from follow_links_schedule [of tight_config example_site mem url s]
    show "fst (follow_links tight_config example_site mem url s) \<le> 21"
      by (auto simp: tight_config_def default_config_def)
  qed
  have h: "\<not> (pending over_cap < max_requests tight_config \<and>
      complete over_cap + pending over_cap < max_total tight_config)"
    by code_simp
  have points: "map pending ?points = [0, 0, 5, 5, 5, 4, 4]"
    "map complete ?points = [0, 0, 0, 0, 1, 1, 1]"
    by code_simp+
  have "length ?points = 7" by code_simp
  then have mem: "?points ! 2 \<in> set ?points" "?points ! 4 \<in> set ?points"
    by simp_all
  note inst = caps_hold_up_to_one_page [OF K, of root_done over_cap page1_done]
  from inst mem have
    "pending (?points ! 2) \<le> max 1 (max_requests tight_config + int 21 - 1)"
    "complete (?points ! 4) + pending (?points ! 4) \<le> max 1 (max_total tight_config + int 21)"
    by blast+
  then have at_points: "pending (?points ! 2) \<le> 22"
    "complete (?points ! 4) + pending (?points ! 4) \<le> 24"
    by (simp_all add: tight_config_def default_config_def)
  from inst have "pending ?final \<le> max 0 (max_requests tight_config + int 21 - 2)"
    "complete ?final + pending ?final \<le> max 0 (max_total tight_config + int 21 - 1)"
    by blast+
  then have final: "pending ?final \<le> 21" "complete ?final + pending ?final \<le> 23"
    by (simp_all add: tight_config_def default_config_def)
  from inst h have "multi_handle (handle_done tight_config example_site page1_done over_cap) =
     remove1 (easy_handle page1_done) (multi_handle over_cap)"
    by blast
  with K points at_points final h show ?thesis by blast
qed

text \<open>
  Claim C1 as stated fails, and by the placement of the tests alone. With
  \<open>max_requests = 2\<close> and \<open>max_total = 3\<close> the start page is admitted whether or not its
  own fetch is counted (\<open>pending + 1 < max_requests\<close> and
  \<open>complete + pending + 1 < max_total\<close> hold as well), and its five links are fewer than
  \<open>max_link_per_page\<close>. Once it has completed, five fetches are in flight (\<open>pending\<close> is
  4) and six have been scheduled (\<open>complete + pending\<close> is 5).
\<close>

theorem caps_exceeded_counterexample:
  "rounds_ok tight_config example_site root_done (crawl_start tight_config) \<and>
   pending (crawl_start tight_config) + 1 < max_requests tight_config \<and>
   complete (crawl_start tight_config) + pending (crawl_start tight_config) + 1
     < max_total tight_config \<and>
   length five_links < max_link_per_page tight_config \<and>
   max_requests tight_config <
     in_flight (main_loop tight_config example_site root_done (crawl_start tight_config)) \<and>
   max_requests tight_config <
     pending (main_loop tight_config example_site root_done (crawl_start tight_config)) \<and>
   max_total tight_config <
     total_scheduled (main_loop tight_config example_site root_done (crawl_start tight_config)) \<and>
   max_total tight_config <
     complete (main_loop tight_config example_site root_done (crawl_start tight_config)) +
     pending (main_loop tight_config example_site root_done (crawl_start tight_config))"
  by code_simp

text \<open>
  Claim C4. The code at the failing input \<open>--max-total 1\<close>: when the root page completes,
  \<open>complete + pending\<close> is \<open>0 < 1\<close>, so its five links are followed and five further
  fetches are scheduled after the one allowed request has completed.
\<close>

theorem max_total_one_still_follows:
  "max_total single_config = 1 \<and>
   rounds_ok single_config example_site root_done (crawl_start single_config) \<and>
   complete (main_loop single_config example_site root_done (crawl_start single_config)) = 1 \<and>
   multi_handle (main_loop single_config example_site root_done (crawl_start single_config)) =
     five_links"
  by code_simp

text \<open>
  Claim C9. The code at the failing input, a start URL whose transfer fails: \<open>pending\<close> is
  0 while the start handle is in flight, and it is \<open>-1\<close> once nothing is in flight.
\<close>

theorem pending_negative_after_failed_start:
  "pending (crawl_start (default_config root_url)) = 0 \<and>
   in_flight (crawl_start (default_config root_url)) = 1 \<and>
   pending (handle_done (default_config root_url) example_site
              ((html_ok root_url)\<lparr>result := CURLE_ERROR 7\<rparr>)
              (crawl_start (default_config root_url))) = - 1 \<and>
   in_flight (handle_done (default_config root_url) example_site
              ((html_ok root_url)\<lparr>result := CURLE_ERROR 7\<rparr>)
              (crawl_start (default_config root_url))) = 0"
  by code_simp

section \<open>Pages handled while over the caps\<close>

text \<open>
  Claim C5, as amended. When a successfully fetched page with status 200, HTML or not, is
  handled while the admission test fails, the page is not parsed: no edge is recorded,
  no fetch is scheduled and no broken link is filed. The state changes only by the
  removal of the completed handle from the multi handle, the increment of \<open>complete\<close>
  and the decrement of \<open>pending\<close>.
\<close>

theorem no_discovery_when_over_cap:
  assumes "\<not> (pending s < max_requests cfg \<and> complete s + pending s < max_total cfg)"
    and "result m = CURLE_OK" and "response_code m = 200"
  shows "handle_done cfg lib m s =
           s\<lparr>multi_handle := remove1 (easy_handle m) (multi_handle s),
             complete := complete s + 1,
             pending := pending s - 1\<rparr>"
  using assms by (auto simp: handle_done_def Let_def)

theorem no_discovery_when_over_cap_witness:
  "\<not> (pending over_cap < max_requests tight_config \<and>
      complete over_cap + pending over_cap < max_total tight_config) \<and>
   result page1_done = CURLE_OK \<and> response_code page1_done = 200 \<and>
   handle_done tight_config example_site page1_done over_cap =
     over_cap\<lparr>multi_handle := remove1 (easy_handle page1_done) (multi_handle over_cap),
              complete := complete over_cap + 1,
              pending := pending over_cap - 1\<rparr> \<and>
   multi_handle (handle_done tight_config example_site page1_done over_cap) =
     [''http://example.com/page2'', ''http://example.com/page3'',
      ''http://example.com/page4'', ''http://example.com/page5''] \<and>
   broken_links (handle_done tight_config example_site page1_done over_cap) = [] \<and>
   pending (handle_done tight_config example_site page1_done over_cap) = 3 \<and>
   complete (handle_done tight_config example_site page1_done over_cap) = 2"
proof -
  have h: "\<not> (pending over_cap < max_requests tight_config \<and>
      complete over_cap + pending over_cap < max_total tight_config)"
    by code_simp
  have ok: "result page1_done = CURLE_OK" "response_code page1_done = 200"
    by (simp_all add: page1_done_def html_ok_def)
  have before: "multi_handle over_cap = five_links" "pending over_cap = 4"
    "complete over_cap = 1" "broken_links over_cap = []"
    by code_simp+
  note frame = no_discovery_when_over_cap [OF h ok, of example_site]
  have after:
    "multi_handle (handle_done tight_config example_site page1_done over_cap) =
       [''http://example.com/page2'', ''http://example.com/page3'',
        ''http://example.com/page4'', ''http://example.com/page5'']"
    "broken_links (handle_done tight_config example_site page1_done over_cap) = []"
    "pending (handle_done tight_config example_site page1_done over_cap) = 3"
    "complete (handle_done tight_config example_site page1_done over_cap) = 2"
    unfolding frame using before
    by (simp_all add: five_links_def page1_done_def html_ok_def)
  from h ok frame after show ?thesis by blast
qed

text \<open>
  Claim C5 as stated fails: page 1 is a successful HTML page with an anchor to page 6 and
  is handled while \<open>pending\<close> is not below \<open>max_requests\<close>. \<open>follow_links\<close> would record
  the edge from page 1 to page 6; the completion handler does not call it, and the edge
  is not in the graph.
\<close>

theorem page_over_cap_not_parsed_counterexample:
  "result page1_done = CURLE_OK \<and> response_code page1_done = 200 \<and>
   is_html (content_type page1_done) \<and> 100 < length (info_private page1_done) \<and>
   \<not> (pending over_cap < max_requests tight_config \<and>
      complete over_cap + pending over_cap < max_total tight_config) \<and>
   anchor_hrefs example_site (info_private page1_done) (effective_url page1_done) =
     Some [Some ''http://example.com/page6''] \<and>
   has_edge (network (snd (follow_links tight_config example_site (info_private page1_done)
                (effective_url page1_done) over_cap)))
     ''http://example.com/page1'' ''http://example.com/page6'' \<and>
   \<not> has_edge (network (handle_done tight_config example_site page1_done over_cap))
     ''http://example.com/page1'' ''http://example.com/page6''"
  by code_simp

section \<open>The cap on links per page\<close>

text \<open>
  Claim C2. The code at the failing input, \<open>--max-link-per-page 2\<close> and a page with five
  eligible links: \<open>count++ == max_link_per_page\<close> compares the count before the
  increment, so the loop stops after the third new link, \<open>follow_links\<close> returns 3 and
  three handles have been added to the multi handle.
\<close>

theorem cap_two_schedules_three:
  "max_link_per_page two_per_page = 2 \<and>
   fst (follow_links two_per_page example_site (replicate 101 (CHR ''a'')) root_url
          (crawl_start two_per_page)) = 3 \<and>
   multi_handle (snd (follow_links two_per_page example_site (replicate 101 (CHR ''a'')) root_url
          (crawl_start two_per_page))) =
     [root_url, ''http://example.com/page1'', ''http://example.com/page2'',
      ''http://example.com/page3'']"
  by code_simp

section \<open>Revisits\<close>

text \<open>
  Claim C3. The code at the failing input, a start page that links to itself: the start
  URL is given to curl without being entered in the graph, so when its page completes
  the link to itself is not found there, and the URL is scheduled a second time. Both
  completions of the two rounds are fetches of the start URL.
\<close>

theorem start_url_scheduled_twice:
  "multi_handle (crawl_start (default_config index_url)) = [index_url] \<and>
   multi_handle (handle_done (default_config index_url) self_site (html_ok index_url)
                   (crawl_start (default_config index_url))) = [index_url] \<and>
   has_edge (network (handle_done (default_config index_url) self_site (html_ok index_url)
                   (crawl_start (default_config index_url)))) index_url index_url \<and>
   rounds_ok (default_config index_url) self_site fetched_twice
     (crawl_start (default_config index_url)) \<and>
   complete (main_loop (default_config index_url) self_site fetched_twice
     (crawl_start (default_config index_url))) = 2 \<and>
   multi_handle (main_loop (default_config index_url) self_site fetched_twice
     (crawl_start (default_config index_url))) = []"
  by code_simp

section \<open>Canonical keys\<close>

lemma graph_has_insert_edge:
  "graph_has (insert_edge g a b) l \<longleftrightarrow> graph_has g l \<or> l = a \<or> l = b"
  by (auto simp: insert_edge_def insert_vertex_def graph_has_def Let_def)

lemma has_edge_insert_edge:
  "has_edge (insert_edge g a b) x y \<longleftrightarrow> has_edge g x y \<or> (x = a \<and> y = b)"
  by (auto simp: insert_edge_def insert_vertex_def graph_has_def has_edge_def out_links_def Let_def
           split: option.splits if_splits)

lemma links_loop_candidates:
  "only_candidates lib url s (snd (links_loop cfg lib url nodes uri count s))"
  by (rule links_loop_rule [where I = "\<lambda>c t. only_candidates lib url s t"])
     (auto simp: only_candidates_def graph_has_insert_edge has_edge_insert_edge)

lemma follow_links_candidates:
  "only_candidates lib url s (snd (follow_links cfg lib mem url s))"
proof (cases "strncmp url (start_url cfg) (length (start_url cfg)) \<noteq> 0 \<or>
              anchor_hrefs lib mem url = None")
  case True
  then show ?thesis by (auto simp: follow_links_def only_candidates_def)
next
  case False
  then show ?thesis by (auto simp: follow_links_def links_loop_candidates)
qed

lemma links_loop_fragment_blind:
  assumes "(xmlParseURIReference lib uri
       (if follow_relative_links cfg \<noteq> 0 then xmlBuildURI lib h1 url else h1))\<lparr>fragment := None\<rparr> =
    (xmlParseURIReference lib uri
       (if follow_relative_links cfg \<noteq> 0 then xmlBuildURI lib h2 url else h2))\<lparr>fragment := None\<rparr>"
  shows "links_loop cfg lib url (h1 # nodes) uri count s =
         links_loop cfg lib url (h2 # nodes) uri count s"
  using assms by (simp only: links_loop.simps Let_def)

text \<open>
  Claim C7. Whatever \<open>follow_links\<close> adds as a graph key or schedules is a candidate: the
  saved form of a URI whose fragment has been cleared, of at least 20 characters, that
  begins with \<open>http://\<close> or \<open>https://\<close>; everything else is discarded. And two hrefs whose
  parsed URIs differ only in the fragment have the same effect on the graph and on the
  schedule, so they stand for the same graph node.
\<close>

theorem keys_are_filtered_and_without_fragment:
  "only_candidates lib url s (snd (follow_links cfg lib mem url s)) \<and>
   ((xmlParseURIReference lib uri
       (if follow_relative_links cfg \<noteq> 0 then xmlBuildURI lib h1 url else h1))\<lparr>fragment := None\<rparr> =
    (xmlParseURIReference lib uri
       (if follow_relative_links cfg \<noteq> 0 then xmlBuildURI lib h2 url else h2))\<lparr>fragment := None\<rparr>
    \<longrightarrow> links_loop cfg lib url (h1 # nodes) uri count s =
        links_loop cfg lib url (h2 # nodes) uri count s)"
  using follow_links_candidates links_loop_fragment_blind by blast

text \<open>
  On a root page with the anchors \<open>http://example.com/page#frag\<close> and
  \<open>http://example.com/page\<close>, both stand for the node \<open>http://example.com/page\<close>, which
  is scheduled once. The link \<open>http://x/y\<close> has 10 characters and is discarded, as is the
  \<open>ftp\<close> link.
\<close>

theorem keys_are_filtered_and_without_fragment_witness:
  "cut_fragment xmlCreateURI (Some ''http://example.com/page#frag'')\<lparr>fragment := None\<rparr> =
     cut_fragment xmlCreateURI (Some ''http://example.com/page'')\<lparr>fragment := None\<rparr> \<and>
   links_loop (default_config root_url) frag_site root_url
       [Some ''http://example.com/page#frag''] xmlCreateURI 0
       (crawl_start (default_config root_url)) =
     links_loop (default_config root_url) frag_site root_url
       [Some ''http://example.com/page''] xmlCreateURI 0
       (crawl_start (default_config root_url)) \<and>
   multi_handle (snd (follow_links (default_config root_url) frag_site
       (replicate 101 (CHR ''a'')) root_url (crawl_start (default_config root_url)))) =
     [root_url, ''http://example.com/page''] \<and>
   candidate frag_site ''http://example.com/page'' \<and>
   \<not> graph_has (network (snd (follow_links (default_config root_url) frag_site
       (replicate 101 (CHR ''a'')) root_url (crawl_start (default_config root_url)))))
       ''http://example.com/page#frag'' \<and>
   \<not> graph_has (network (snd (follow_links (default_config root_url) frag_site
       (replicate 101 (CHR ''a'')) root_url (crawl_start (default_config root_url)))))
       ''http://x/y'' \<and>
   \<not> graph_has (network (snd (follow_links (default_config root_url) frag_site
       (replicate 101 (CHR ''a'')) root_url (crawl_start (default_config root_url)))))
       ''ftp://example.com/pub/file.txt''"
proof -
  let ?cfg = "default_config root_url"
  let ?s = "crawl_start ?cfg"
  let ?t = "snd (follow_links ?cfg frag_site (replicate 101 (CHR ''a'')) root_url ?s)"
  note inst = keys_are_filtered_and_without_fragment
    [where lib = frag_site and url = root_url and s = ?s and cfg = ?cfg
       and mem = "replicate 101 (CHR ''a'')" and uri = xmlCreateURI
       and ?h1.0 = "Some ''http://example.com/page#frag''"
       and ?h2.0 = "Some ''http://example.com/page''" and nodes = "[]" and count = 0]
  have same: "cut_fragment xmlCreateURI (Some ''http://example.com/page#frag'')\<lparr>fragment := None\<rparr> =
     cut_fragment xmlCreateURI (Some ''http://example.com/page'')\<lparr>fragment := None\<rparr>"
    by (simp add: cut_fragment_def)
  then have hyp: "(xmlParseURIReference frag_site xmlCreateURI
       (if follow_relative_links ?cfg \<noteq> 0
        then xmlBuildURI frag_site (Some ''http://example.com/page#frag'') root_url
        else Some ''http://example.com/page#frag''))\<lparr>fragment := None\<rparr> =
    (xmlParseURIReference frag_site xmlCreateURI
       (if follow_relative_links ?cfg \<noteq> 0
        then xmlBuildURI frag_site (Some ''http://example.com/page'') root_url
        else Some ''http://example.com/page''))\<lparr>fragment := None\<rparr>"
    by (simp add: frag_site_def site_lib_def default_config_def)
  from inst hyp have loops: "links_loop ?cfg frag_site root_url
       [Some ''http://example.com/page#frag''] xmlCreateURI 0 ?s =
     links_loop ?cfg frag_site root_url [Some ''http://example.com/page''] xmlCreateURI 0 ?s"
    by blast
  have sched: "multi_handle ?t = [root_url, ''http://example.com/page'']"
    by code_simp
  have new: "''http://example.com/page'' \<in> set (multi_handle ?t) \<and>
             ''http://example.com/page'' \<notin> set (multi_handle ?s)"
    by code_simp
  from inst have "only_candidates frag_site root_url ?s ?t" by blast
  with new have cand: "candidate frag_site ''http://example.com/page''"
    unfolding only_candidates_def by blast
  have absent:
    "\<not> graph_has (network ?t) ''http://example.com/page#frag''"
    "\<not> graph_has (network ?t) ''http://x/y''"
    "\<not> graph_has (network ?t) ''ftp://example.com/pub/file.txt''"
    by code_simp+
  from same loops sched cand absent show ?thesis by blast
qed

end
